theory Spec2Isabelle
  imports Complex_Main "HOL-Library.Word"
begin

section \<open>Python strings, \<open>str.split()\<close> and \<open>" ".join\<close>\<close>

text \<open>
  A Python \<open>str\<close> is modelled as a \<open>string\<close>: a list of code points below 256.
  \<open>str.split()\<close> with no argument cuts at runs of whitespace and drops empty pieces;
  the whitespace code points below 256 are the ASCII ones (9 to 13, 28 to 32) and
  133 and 160.
\<close>

definition is_space :: "char \<Rightarrow> bool" where
  "is_space c = (let n = (of_char c :: nat) in
     (9 \<le> n \<and> n \<le> 13) \<or> (28 \<le> n \<and> n \<le> 32) \<or> n = 133 \<or> n = 160)"

fun split_acc :: "string \<Rightarrow> string \<Rightarrow> string list" where
  "split_acc cur [] = (if cur = [] then [] else [cur])"
| "split_acc cur (c # cs) =
     (if is_space c then (if cur = [] then split_acc [] cs else cur # split_acc [] cs)
      else split_acc (cur @ [c]) cs)"

definition py_split :: "string \<Rightarrow> string list" where
  "py_split s = split_acc [] s"

text \<open>What \<open>str.split()\<close> returns: non-empty pieces free of whitespace.\<close>

definition is_word :: "string \<Rightarrow> bool" where
  "is_word w = (w \<noteq> [] \<and> (\<forall>c\<in>set w. \<not> is_space c))"

fun join_sp :: "string list \<Rightarrow> string" where
  "join_sp [] = []"
| "join_sp [w] = w"
| "join_sp (w # v # ws) = w @ '' '' @ join_sp (v # ws)"

text \<open>
  A slice \<open>xs[a:b]\<close>: a negative bound counts from the end, and both bounds are
  clipped to the list.
\<close>

definition clamp_index :: "int \<Rightarrow> nat \<Rightarrow> nat" where
  "clamp_index i n = (if i < 0 then nat (max 0 (int n + i)) else min (nat i) n)"

definition py_slice :: "'a list \<Rightarrow> int \<Rightarrow> int \<Rightarrow> 'a list" where
  "py_slice xs a b =
     (let lo = clamp_index a (length xs); hi = clamp_index b (length xs)
      in if lo < hi then take (hi - lo) (drop lo xs) else [])"

section \<open>Chunking (\<open>auto_chunk\<close>)\<close>



text \<open>
  The adaptive adjustment at the head of \<open>auto_chunk\<close>: the pair
  \<open>(target_size, overlap)\<close> the sliding window runs with, for a text of \<open>n\<close> words.
\<close>

definition adjust :: "int \<Rightarrow> int \<Rightarrow> int \<Rightarrow> int \<times> int" where
  "adjust n tsize overlap =
     (if n < tsize then
        (let tsize' = max 50 (n div 2) in (tsize', max 10 (tsize' div 10)))
      else if n > 5000 then (min (tsize * 2) 2000, overlap)
      else (tsize, overlap))"

text \<open>
  The \<open>while start < len(words)\<close> loop. Nothing in the source bounds the number of
  rounds, so the loop is a partial function: \<open>None\<close> is "does not return".
\<close>

partial_function (option) chunk_loop ::
  "string list \<Rightarrow> int \<Rightarrow> int \<Rightarrow> int \<Rightarrow> string list \<Rightarrow> string list option" where
  "chunk_loop words tsize overlap start chunks =
     (if start < int (length words) then
        chunk_loop words tsize overlap ((start + tsize) - overlap)
          (chunks @ [join_sp (py_slice words start (start + tsize))])
      else Some chunks)"

definition auto_chunk :: "string \<Rightarrow> int \<Rightarrow> int \<Rightarrow> string list option" where
  "auto_chunk text tsize overlap =
     (let words = py_split text;
          (tsize', overlap') = adjust (int (length words)) tsize overlap
      in chunk_loop words tsize' overlap' 0 [])"

text \<open>
  The words carried by a list of chunks once the overlap is taken out: all words of the
  first chunk, and of every later chunk all but its first \<open>overlap\<close> words.
\<close>

definition non_overlapping :: "nat \<Rightarrow> string list \<Rightarrow> string list" where
  "non_overlapping overlap chunks =
     (case chunks of [] \<Rightarrow> []
      | c # cs \<Rightarrow> py_split c @ concat (map (\<lambda>c. drop overlap (py_split c)) cs))"

text \<open>
  The windows the loop cuts, as a total function on the words not yet passed: used to
  describe the result of \<open>chunk_loop\<close> when the step \<open>size - overlap\<close> is positive.
\<close>

function windows :: "nat \<Rightarrow> nat \<Rightarrow> 'a list \<Rightarrow> 'a list list" where
  "windows sz ov rest =
     (if rest = [] \<or> sz \<le> ov then []
      else take sz rest # windows sz ov (drop (sz - ov) rest))"
  by pat_completeness auto
termination
proof (relation "measure (\<lambda>(sz, ov, rest). length rest)")
  fix sz ov :: nat and rest :: "'a list"
  assume "\<not> (rest = [] \<or> sz \<le> ov)"
  then have "0 < length rest" and "ov < sz" by simp_all
  then have "length rest - (sz - ov) < length rest" by arith
  then show "((sz, ov, drop (sz - ov) rest), (sz, ov, rest))
      \<in> measure (\<lambda>(sz, ov, rest). length rest)" by simp
qed simp

declare windows.simps [simp del]

section \<open>Errors\<close>

text \<open>The exceptions that the modelled code paths can raise, as values.\<close>

datatype error =
    TypeError string
  | NameError string
  | KeyError string
  | IndexError string
  | HTTPError int
  | RequestException
  | DatabaseError string

section \<open>Embedding (\<open>Embedder\<close>)\<close>

text \<open>
  The embedding service is outside the repository: it is a parameter, a function from
  the URL, the model name and the prompt of a request to a response. A response is
  either none that can be used (transport failure, timeout, a body that is not JSON) or a
  status code and the vector-valued members of the JSON object in the body.
\<close>

datatype response = NoResponse | Response int "(string \<times> real list) list"

type_synonym service = "string \<Rightarrow> string \<Rightarrow> string \<Rightarrow> response"

record Embedder =
  model :: string
  base_url :: string

definition rstrip_slash :: "string \<Rightarrow> string" where
  "rstrip_slash s = rev (dropWhile (\<lambda>c. c = CHR ''/'') (rev s))"

definition Embedder_init :: "string \<Rightarrow> string \<Rightarrow> Embedder" where
  "Embedder_init m url = \<lparr>model = m, base_url = rstrip_slash url\<rparr>"

definition default_Embedder :: Embedder where
  "default_Embedder = Embedder_init ''nomic-embed-text'' ''http://localhost:11434''"

text \<open>
  One request of the loop in \<open>Embedder.embed\<close>: \<open>requests.post\<close>,
  \<open>raise_for_status\<close> (an error for a status from 400 to 599), then
  \<open>r.json()["embedding"]\<close>.
\<close>

definition embed_request :: "service \<Rightarrow> string \<Rightarrow> string \<Rightarrow> string \<Rightarrow> error + real list" where
  "embed_request post url m prompt =
     (case post url m prompt of
        NoResponse \<Rightarrow> Inl RequestException
      | Response status_code body \<Rightarrow>
          if 400 \<le> status_code \<and> status_code < 600 then Inl (HTTPError status_code)
          else (case map_of body ''embedding'' of
                  None \<Rightarrow> Inl (KeyError ''embedding'')
                | Some v \<Rightarrow> Inr v))"

fun embed_loop ::
  "service \<Rightarrow> Embedder \<Rightarrow> string list \<Rightarrow> real list list \<Rightarrow> error + real list list" where
  "embed_loop post self [] vectors = Inr vectors"
| "embed_loop post self (t # ts) vectors =
     (case embed_request post (base_url self @ ''/api/embeddings'') (model self) t of
        Inl e \<Rightarrow> Inl e
      | Inr v \<Rightarrow> embed_loop post self ts (vectors @ [v]))"

text \<open>The argument of \<open>embed\<close> is a single \<open>str\<close> or a sequence of them.\<close>

datatype texts = Str string | Seq "string list"

definition embed :: "service \<Rightarrow> Embedder \<Rightarrow> texts \<Rightarrow> error + real list list" where
  "embed post self txts =
     (let ts = (case txts of Str s \<Rightarrow> [s] | Seq l \<Rightarrow> l)
      in embed_loop post self ts [])"

definition embed_batch :: "service \<Rightarrow> Embedder \<Rightarrow> texts \<Rightarrow> error + real list list" where
  "embed_batch post self txts = embed post self txts"

section \<open>Content identity (\<open>hash_id\<close>)\<close>

text \<open>
  \<open>str.encode()\<close> is UTF-8: one byte for a code point below 128, two bytes for the
  others below 256. Bytes are numbers below 256.
\<close>

definition utf8_char :: "char \<Rightarrow> nat list" where
  "utf8_char c = (let n = (of_char c :: nat) in
     if n < 128 then [n] else [192 + n div 64, 128 + n mod 64])"

definition encode :: "string \<Rightarrow> nat list" where
  "encode s = concat (map utf8_char s)"

text \<open>
  \<open>hashlib.sha1\<close>, after FIPS 180-4: padding to a multiple of 64 bytes, a schedule of
  80 words for each block, 80 rounds on five 32-bit words.
\<close>

definition be_bytes :: "nat \<Rightarrow> nat \<Rightarrow> nat list" where
  "be_bytes k n = map (\<lambda>i. (n div 256 ^ i) mod 256) (rev [0..<k])"

definition sha1_pad :: "nat list \<Rightarrow> nat list" where
  "sha1_pad msg =
     msg @ [128] @ replicate ((119 - length msg mod 64) mod 64) 0 @ be_bytes 8 (8 * length msg)"

fun be_word :: "nat list \<Rightarrow> 32 word" where
  "be_word [] = 0"
| "be_word (b # bs) = push_bit (8 * length bs) (of_nat b) + be_word bs"

fun block_words :: "nat \<Rightarrow> nat list \<Rightarrow> 32 word list" where
  "block_words 0 bs = []"
| "block_words (Suc k) bs = be_word (take 4 bs) # block_words k (drop 4 bs)"

fun schedule :: "nat \<Rightarrow> 32 word list \<Rightarrow> 32 word list" where
  "schedule 0 w = w"
| "schedule (Suc k) w =
     (let t = length w
      in schedule k
           (w @ [word_rotl 1 (xor (xor (w ! (t - 3)) (w ! (t - 8)))
                                  (xor (w ! (t - 14)) (w ! (t - 16))))]))"

type_synonym sha1_state = "32 word \<times> 32 word \<times> 32 word \<times> 32 word \<times> 32 word"

definition sha1_f :: "nat \<Rightarrow> 32 word \<Rightarrow> 32 word \<Rightarrow> 32 word \<Rightarrow> 32 word" where
  "sha1_f t b c d =
     (if t < 20 then or (and b c) (and (not b) d)
      else if t < 40 then xor (xor b c) d
      else if t < 60 then or (or (and b c) (and b d)) (and c d)
      else xor (xor b c) d)"

definition sha1_k :: "nat \<Rightarrow> 32 word" where
  "sha1_k t =
     (if t < 20 then 0x5A827999 else if t < 40 then 0x6ED9EBA1
      else if t < 60 then 0x8F1BBCDC else 0xCA62C1D6)"

definition sha1_round :: "32 word list \<Rightarrow> nat \<Rightarrow> sha1_state \<Rightarrow> sha1_state" where
  "sha1_round w t s =
     (case s of (a, b, c, d, e) \<Rightarrow>
        (word_rotl 5 a + sha1_f t b c d + e + sha1_k t + w ! t, a, word_rotl 30 b, c, d))"

definition sha1_block :: "sha1_state \<Rightarrow> nat list \<Rightarrow> sha1_state" where
  "sha1_block h bs =
     (let w = schedule 64 (block_words 16 bs)
      in case (h, fold (sha1_round w) [0..<80] h) of
           ((h0, h1, h2, h3, h4), (a, b, c, d, e)) \<Rightarrow> (h0 + a, h1 + b, h2 + c, h3 + d, h4 + e))"

fun sha1_blocks :: "nat \<Rightarrow> sha1_state \<Rightarrow> nat list \<Rightarrow> sha1_state" where
  "sha1_blocks 0 h bs = h"
| "sha1_blocks (Suc k) h bs = sha1_blocks k (sha1_block h (take 64 bs)) (drop 64 bs)"

definition sha1 :: "nat list \<Rightarrow> sha1_state" where
  "sha1 msg =
     (let padded = sha1_pad msg
      in sha1_blocks (length padded div 64)
           (0x67452301, 0xEFCDAB89, 0x98BADCFE, 0x10325476, 0xC3D2E1F0) padded)"

definition hex_digit :: "nat \<Rightarrow> char" where
  "hex_digit n = ''0123456789abcdef'' ! (n mod 16)"

definition hex_word :: "32 word \<Rightarrow> string" where
  "hex_word w = map (\<lambda>i. hex_digit (unat w div 16 ^ i)) (rev [0..<8])"

definition hexdigest :: "sha1_state \<Rightarrow> string" where
  "hexdigest s = (case s of (a, b, c, d, e) \<Rightarrow> concat (map hex_word [a, b, c, d, e]))"

definition hash_id :: "string \<Rightarrow> string \<Rightarrow> string" where
  "hash_id text collection = hexdigest (sha1 (encode (collection @ '':'' @ text)))"

section \<open>The vector store (\<open>DatabaseManager\<close>)\<close>

definition EMBEDDING_DIM :: nat where
  "EMBEDDING_DIM = 768"

text \<open>
  A row of the table \<open>document_chunk\<close>, with the columns of the \<open>CREATE TABLE\<close>
  statement. The JSON object in \<open>vmetadata\<close> is kept as its list of members.
\<close>

record row =
  row_id :: string
  row_vector :: "real list"
  row_collection_name :: string
  row_text :: string
  row_vmetadata :: "(string \<times> string) list"

text \<open>
  The connection is opened with \<open>autocommit = False\<close>: statements run inside a
  transaction on a snapshot of the table, and only \<open>commit\<close> makes the snapshot the
  table that other sessions and later runs see. After a failed statement the transaction
  is aborted: the server refuses further statements and a commit ends it without effect.
\<close>

datatype transaction = Idle | InTransaction "row list" | InFailedTransaction

record DatabaseManager =
  committed :: "row list"
  status :: transaction

definition DatabaseManager_init :: "row list \<Rightarrow> DatabaseManager" where
  "DatabaseManager_init tbl = \<lparr>committed = tbl, status = Idle\<rparr>"

definition snapshot :: "DatabaseManager \<Rightarrow> row list" where
  "snapshot db = (case status db of InTransaction tbl \<Rightarrow> tbl | _ \<Rightarrow> committed db)"

text \<open>
  One statement \<open>INSERT INTO document_chunk ... ON CONFLICT (id) DO NOTHING\<close> on the
  table with primary key \<open>id\<close>.
\<close>

definition insert_on_conflict_do_nothing :: "row list \<Rightarrow> row \<Rightarrow> row list" where
  "insert_on_conflict_do_nothing tbl r =
     (if row_id r \<in> row_id ` set tbl then tbl else tbl @ [r])"

text \<open>
  Failures of the server or the connection come from outside the program: \<open>fault\<close>
  is the number of the statement of a batch, counted from 0, at which the server fails or
  the process dies (\<open>None\<close>: no failure); the commit that follows \<open>n\<close> statements
  has the number \<open>n\<close>.
\<close>

fun execute_statements :: "nat option \<Rightarrow> nat \<Rightarrow> row list \<Rightarrow> row list \<Rightarrow> error + row list" where
  "execute_statements fault k tbl [] = Inr tbl"
| "execute_statements fault k tbl (r # rs) =
     (if fault = Some k then Inl (DatabaseError ''statement failed'')
      else execute_statements fault (Suc k) (insert_on_conflict_do_nothing tbl r) rs)"

text \<open>\<open>cursor.execute\<close> of one page of statements joined by \<open>;\<close>.\<close>

definition execute_page ::
  "nat option \<Rightarrow> nat \<Rightarrow> DatabaseManager \<Rightarrow> row list \<Rightarrow> (error + unit) \<times> DatabaseManager" where
  "execute_page fault k db page =
     (if status db = InFailedTransaction then
        (Inl (DatabaseError ''current transaction is aborted''), db)
      else (case execute_statements fault k (snapshot db) page of
              Inl e \<Rightarrow> (Inl e, db\<lparr>status := InFailedTransaction\<rparr>)
            | Inr tbl \<Rightarrow> (Inr (), db\<lparr>status := InTransaction tbl\<rparr>)))"

function paginate :: "'a list \<Rightarrow> nat \<Rightarrow> 'a list list" where
  "paginate seq page_size =
     (if seq = [] \<or> page_size = 0 then []
      else take page_size seq # paginate (drop page_size seq) page_size)"
  by pat_completeness auto
termination
proof (relation "measure (\<lambda>(seq, page_size). length seq)")
  fix seq :: "'a list" and page_size :: nat
  assume "\<not> (seq = [] \<or> page_size = 0)"
  then have "length seq - page_size < length seq" by (cases seq) simp_all
  then show "((drop page_size seq, page_size), (seq, page_size))
      \<in> measure (\<lambda>(seq, page_size). length seq)" by simp
qed simp

declare paginate.simps [simp del]

fun execute_pages ::
  "nat option \<Rightarrow> nat \<Rightarrow> DatabaseManager \<Rightarrow> row list list \<Rightarrow> (error + unit) \<times> DatabaseManager" where
  "execute_pages fault k db [] = (Inr (), db)"
| "execute_pages fault k db (page # pages) =
     (case execute_page fault k db page of
        (Inl e, db') \<Rightarrow> (Inl e, db')
      | (Inr u, db') \<Rightarrow> execute_pages fault (k + length page) db' pages)"

definition execute_batch ::
  "nat option \<Rightarrow> DatabaseManager \<Rightarrow> row list \<Rightarrow> nat \<Rightarrow> (error + unit) \<times> DatabaseManager" where
  "execute_batch fault db argslist page_size =
     execute_pages fault 0 db (paginate argslist page_size)"

definition commit :: "nat option \<Rightarrow> nat \<Rightarrow> DatabaseManager \<Rightarrow> (error + unit) \<times> DatabaseManager" where
  "commit fault k db =
     (if fault = Some k then (Inl (DatabaseError ''commit failed''), db\<lparr>status := Idle\<rparr>)
      else (case status db of
              InTransaction tbl \<Rightarrow> (Inr (), \<lparr>committed = tbl, status = Idle\<rparr>)
            | _ \<Rightarrow> (Inr (), db\<lparr>status := Idle\<rparr>)))"

definition insert_chunks ::
  "nat option \<Rightarrow> DatabaseManager \<Rightarrow> row list \<Rightarrow> (error + unit) \<times> DatabaseManager" where
  "insert_chunks fault db rows =
     (case execute_batch fault db rows 100 of
        (Inl e, db') \<Rightarrow> (Inl e, db')
      | (Inr u, db') \<Rightarrow> commit fault (length rows) db')"

section \<open>Similarity search\<close>

text \<open>
  The distance operators of the vector extension: \<open><->\<close> is the Euclidean distance,
  \<open><=>\<close> the cosine distance, \<open><#>\<close> the negative inner product. An operator
  class of an index names the operator the index is built for. Distances are taken over
  the reals.
\<close>

datatype distance_operator = L2_distance | Cosine_distance | Negative_inner_product

datatype operator_class = vector_l2_ops | vector_cosine_ops | vector_ip_ops

fun opclass_operator :: "operator_class \<Rightarrow> distance_operator" where
  "opclass_operator vector_l2_ops = L2_distance"
| "opclass_operator vector_cosine_ops = Cosine_distance"
| "opclass_operator vector_ip_ops = Negative_inner_product"

definition dot :: "real list \<Rightarrow> real list \<Rightarrow> real" where
  "dot a b = sum_list (map (\<lambda>(x, y). x * y) (zip a b))"

fun distance :: "distance_operator \<Rightarrow> real list \<Rightarrow> real list \<Rightarrow> real" where
  "distance L2_distance a b = sqrt (sum_list (map (\<lambda>(x, y). (x - y)\<^sup>2) (zip a b)))"
| "distance Cosine_distance a b = 1 - dot a b / sqrt (dot a a * dot b b)"
| "distance Negative_inner_product a b = - dot a b"

text \<open>The indexes created by \<open>initialize_schema\<close> on the vector column.\<close>

datatype index_method = ivfflat | hnsw

record vector_index =
  index_name :: string
  index_method :: index_method
  index_opclass :: operator_class

definition initialize_schema_indexes :: "vector_index list" where
  "initialize_schema_indexes =
     [\<lparr>index_name = ''idx_document_chunk_vector_ivfflat'', index_method = ivfflat,
        index_opclass = vector_cosine_ops\<rparr>,
      \<lparr>index_name = ''idx_document_chunk_vector_hnsw'', index_method = hnsw,
        index_opclass = vector_cosine_ops\<rparr>]"

text \<open>
  The operator in the \<open>SELECT\<close> of \<open>similarity_search\<close> and of
  \<open>search_documents\<close> (\<open><->\<close>), and the one in \<open>check_db.py\<close> (\<open><=>\<close>).
\<close>

definition similarity_search_operator :: distance_operator where
  "similarity_search_operator = L2_distance"

definition search_documents_operator :: distance_operator where
  "search_documents_operator = L2_distance"

definition check_db_operator :: distance_operator where
  "check_db_operator = Cosine_distance"

text \<open>
  Parameters of \<open>cursor.execute\<close>. The driver formats the statement with the tuple of
  parameters as the \<open>%\<close> operator does: more parameters than \<open>%s\<close> placeholders is a
  \<open>TypeError\<close>, fewer an \<open>IndexError\<close>.
\<close>

datatype param = PVector "real list" | PStr string | PInt int

definition bind_params :: "nat \<Rightarrow> param list \<Rightarrow> error + param list" where
  "bind_params placeholders args =
     (if placeholders < length args then
        Inl (TypeError ''not all arguments converted during string formatting'')
      else if length args < placeholders then Inl (IndexError ''tuple index out of range'')
      else Inr args)"

text \<open>
  The statement
  \<open>SELECT text, vmetadata, vector op q AS distance FROM document_chunk
    WHERE collection_name = %s ORDER BY vector op q LIMIT %s\<close>
  on a table, with its two bound parameters.
\<close>

definition select_nearest ::
  "distance_operator \<Rightarrow> row list \<Rightarrow> real list \<Rightarrow> param list \<Rightarrow>
   error + (string \<times> (string \<times> string) list \<times> real) list" where
  "select_nearest op tbl q params =
     (case params of
        [PStr collection, PInt limit] \<Rightarrow>
          (let candidates = filter (\<lambda>r. row_collection_name r = collection) tbl
           in if limit < 0 then Inl (DatabaseError ''LIMIT must not be negative'')
              else if list_ex (\<lambda>r. length (row_vector r) \<noteq> length q) candidates
                then Inl (DatabaseError ''different vector dimensions'')
              else Inr (take (nat limit)
                     (map (\<lambda>r. (row_text r, row_vmetadata r, distance op (row_vector r) q))
                        (sort_key (\<lambda>r. distance op (row_vector r) q) candidates))))
      | _ \<Rightarrow> Inl (DatabaseError ''parameter type''))"

definition similarity_search ::
  "DatabaseManager \<Rightarrow> real list \<Rightarrow> string \<Rightarrow> int \<Rightarrow>
   error + (string \<times> (string \<times> string) list \<times> real) list" where
  "similarity_search db query_vector collection limit =
     (case bind_params 2 [PVector query_vector, PStr collection, PInt limit] of
        Inl e \<Rightarrow> Inl e
      | Inr params \<Rightarrow> select_nearest similarity_search_operator (snapshot db) query_vector params)"

text \<open>\<open>get_embedding\<close> and \<open>search_documents\<close> of the MCP server.\<close>

definition OLLAMA_URL :: string where
  "OLLAMA_URL = ''http://localhost:11434''"

definition EMBEDDING_MODEL :: string where
  "EMBEDDING_MODEL = ''nomic-embed-text''"

definition get_embedding :: "service \<Rightarrow> string \<Rightarrow> error + real list" where
  "get_embedding post txt = embed_request post (OLLAMA_URL @ ''/api/embeddings'') EMBEDDING_MODEL txt"

definition search_documents ::
  "service \<Rightarrow> row list \<Rightarrow> string \<Rightarrow> string \<Rightarrow> int \<Rightarrow>
   error + (string \<times> (string \<times> string) list \<times> real) list" where
  "search_documents post tbl query collection limit =
     (case get_embedding post query of
        Inl e \<Rightarrow> Inl e
      | Inr query_vector \<Rightarrow>
          (case bind_params 2 [PStr collection, PInt limit] of
             Inl e \<Rightarrow> Inl e
           | Inr params \<Rightarrow> select_nearest search_documents_operator tbl query_vector params))"

section \<open>Ingestion (\<open>process_file\<close>, \<open>ingest_folder\<close>)\<close>




















text \<open>The loop \<open>rows.extend(future.result())\<close>: \<open>result\<close> raises what the task raised.\<close>

fun gather :: "(error + row list) list \<Rightarrow> row list \<Rightarrow> error + row list" where
  "gather [] rows = Inr rows"
| "gather (future # futures) rows =
     (case future of Inl e \<Rightarrow> Inl e | Inr result \<Rightarrow> gather futures (rows @ result))"


section \<open>Example data\<close>

text \<open>Two chunks of the collection \<open>docs@v1\<close> and one of \<open>docs@v2\<close>, used in the examples.\<close>

definition example_row :: "string \<Rightarrow> real list \<Rightarrow> string \<Rightarrow> row" where
  "example_row txt v collection =
     \<lparr>row_id = hash_id txt collection, row_vector = v, row_collection_name = collection,
      row_text = txt, row_vmetadata = [(''source'', ''a.txt''), (''product'', ''docs'')]\<rparr>"

definition example_rows :: "row list" where
  "example_rows =
     [example_row ''far'' [10, 0] ''docs@v1'',
      example_row ''near'' [3, 4] ''docs@v1'',
      example_row ''other'' [1, 0] ''docs@v2'']"

definition example_service :: service where
  "example_service url m prompt =
     (if prompt = ''gamma delta'' then Response 500 [] else Response 200 [(''embedding'', [1, 0])])"


section \<open>Lemmas on splitting and windows\<close>

lemma split_acc_words:
  "\<forall>c\<in>set cur. \<not> is_space c \<Longrightarrow> \<forall>w\<in>set (split_acc cur s). is_word w"
proof (induction s arbitrary: cur)
  case Nil
  then show ?case by (simp add: is_word_def)
next
  case (Cons c cs)
  have e: "\<forall>w\<in>set (split_acc [] cs). is_word w"
    by (rule Cons.IH) simp
  show ?case
  proof (cases "is_space c")
    case True
    with e Cons.prems show ?thesis by (simp add: is_word_def)
  next
    case False
    with Cons.prems have "\<forall>d\<in>set (cur @ [c]). \<not> is_space d" by simp
    then have "\<forall>w\<in>set (split_acc (cur @ [c]) cs). is_word w" by (rule Cons.IH)
    with False show ?thesis by simp
  qed
qed

lemma split_acc_word:
  "\<forall>c\<in>set w. \<not> is_space c \<Longrightarrow> split_acc cur w = (if cur @ w = [] then [] else [cur @ w])"
  by (induction w arbitrary: cur) simp_all

lemma split_acc_word_sp:
  "\<forall>c\<in>set w. \<not> is_space c \<Longrightarrow> cur @ w \<noteq> [] \<Longrightarrow>
   split_acc cur (w @ CHR '' '' # rest) = (cur @ w) # split_acc [] rest"
  by (induction w arbitrary: cur) (simp_all add: is_space_def)

lemma split_join: "\<forall>w\<in>set ws. is_word w \<Longrightarrow> py_split (join_sp ws) = ws"
  unfolding py_split_def
proof (induction ws rule: join_sp.induct)
  case 1 show ?case by simp
next
  case (2 w) then show ?case by (simp add: split_acc_word is_word_def)
next
  case (3 w v ws)
  then have "split_acc [] (join_sp (v # ws)) = v # ws" by simp
  moreover from 3 have "\<forall>c\<in>set w. \<not> is_space c" "[] @ w \<noteq> []" by (simp_all add: is_word_def)
  then have "split_acc [] (w @ CHR '' '' # join_sp (v # ws)) = ([] @ w) # split_acc [] (join_sp (v # ws))"
    by (rule split_acc_word_sp)
  ultimately show ?case by simp
qed

lemma windows_drop: "ov < sz \<Longrightarrow> concat (map (drop ov) (windows sz ov r)) = drop ov r"
proof (induction sz ov r rule: windows.induct)
  case (1 sz ov rest)
  from "1.prems" have "ov < sz" .
  show ?case
  proof (cases "rest = []")
    case True
    then show ?thesis by (simp add: windows.simps[of sz ov "[]"])
  next
    case False
    have IH: "concat (map (drop ov) (windows sz ov (drop (sz - ov) rest))) =
        drop ov (drop (sz - ov) rest)"
      by (rule "1.IH") (use False \<open>ov < sz\<close> in simp_all)
    have eq: "drop ov (take sz rest) @ drop sz rest = drop ov rest"
    proof (cases "sz \<le> length rest")
      case True
      have "drop ov (take sz rest @ drop sz rest) = drop ov (take sz rest) @ drop sz rest"
        using True \<open>ov < sz\<close> by (simp only: drop_append length_take) simp
      then show ?thesis by (simp only: append_take_drop_id)
    next
      case False
      then show ?thesis by simp
    qed
    have dd: "drop ov (drop (sz - ov) rest) = drop sz rest"
      using \<open>ov < sz\<close> by simp
    have w: "windows sz ov rest = take sz rest # windows sz ov (drop (sz - ov) rest)"
      using False \<open>ov < sz\<close> by (subst windows.simps) simp
    have "concat (map (drop ov) (windows sz ov rest)) =
        drop ov (take sz rest) @ concat (map (drop ov) (windows sz ov (drop (sz - ov) rest)))"
      by (simp only: w list.map concat.simps)
    also have "\<dots> = drop ov (take sz rest) @ drop sz rest"
      by (simp only: IH dd)
    finally show ?thesis by (simp only: eq)
  qed
qed

lemma py_slice_window: "py_slice xs (int k) (int k + int sz) = take sz (drop k xs)"
proof -
  have e: "nat (int k + int sz) = k + sz" by (simp add: nat_add_distrib)
  show ?thesis
  proof (cases "k < length xs")
    case True
    then show ?thesis
      by (cases "sz = 0") (auto simp: py_slice_def clamp_index_def Let_def min_def e)
  next
    case False
    then show ?thesis by (simp add: py_slice_def clamp_index_def Let_def e)
  qed
qed

lemma windows_Nil: "windows sz ov [] = []"
  by (simp add: windows.simps[of sz ov "[]"])

lemma windows_Cons:
  "rest \<noteq> [] \<Longrightarrow> ov < sz \<Longrightarrow>
   windows sz ov rest = take sz rest # windows sz ov (drop (sz - ov) rest)"
  by (subst windows.simps) simp

lemma chunk_loop_windows:
  "ov < sz \<Longrightarrow>
   chunk_loop words (int sz) (int ov) (int k) acc =
     Some (acc @ map join_sp (windows sz ov (drop k words)))"
proof (induction "length words - k" arbitrary: k acc rule: less_induct)
  case less
  show ?case
  proof (cases "k < length words")
    case False
    then show ?thesis by (subst chunk_loop.simps) (simp add: windows_Nil)
  next
    case True
    let ?k' = "k + (sz - ov)"
    have step: "int k + int sz - int ov = int ?k'" using less.prems by simp
    from True less.prems have "length words - ?k' < length words - k" by arith
    then have IH: "chunk_loop words (int sz) (int ov) (int ?k')
        (acc @ [join_sp (take sz (drop k words))]) =
        Some ((acc @ [join_sp (take sz (drop k words))]) @
          map join_sp (windows sz ov (drop ?k' words)))"
      using less.prems by (rule less.hyps)
    have w: "windows sz ov (drop k words) =
        take sz (drop k words) # windows sz ov (drop ?k' words)"
      using True less.prems by (simp add: windows_Cons add.commute)
    have "chunk_loop words (int sz) (int ov) (int k) acc =
        chunk_loop words (int sz) (int ov) (int ?k')
          (acc @ [join_sp (take sz (drop k words))])"
      using True by (subst chunk_loop.simps) (simp only: step py_slice_window, simp)
    then show ?thesis by (simp only: IH w) simp
  qed
qed

lemma chunk_loop_diverges:
  assumes "words \<noteq> []" and "tsize \<le> overlap" and "start \<le> 0"
  shows "chunk_loop words tsize overlap start chunks = None"
proof (rule ccontr)
  assume "chunk_loop words tsize overlap start chunks \<noteq> None"
  then obtain r where ret: "chunk_loop words tsize overlap start chunks = Some r" by auto
  have "\<not> (words \<noteq> [] \<and> tsize \<le> overlap \<and> start \<le> 0)"
  proof (rule chunk_loop.raw_induct
      [where P = "\<lambda>words tsize overlap start chunks r.
         \<not> (words \<noteq> [] \<and> tsize \<le> overlap \<and> start \<le> 0)", OF _ ret])
    fix f and words :: "string list" and tsize overlap start :: int and chunks r :: "string list"
    assume IH: "\<And>words tsize overlap start chunks r.
        f words tsize overlap start chunks = Some r \<Longrightarrow>
        \<not> (words \<noteq> [] \<and> tsize \<le> overlap \<and> start \<le> 0)"
      and eq: "(if start < int (length words) then
          f words tsize overlap ((start + tsize) - overlap)
            (chunks @ [join_sp (py_slice words start (start + tsize))])
        else Some chunks) = Some r"
    show "\<not> (words \<noteq> [] \<and> tsize \<le> overlap \<and> start \<le> 0)"
    proof
      assume a: "words \<noteq> [] \<and> tsize \<le> overlap \<and> start \<le> 0"
      then have "start < int (length words)" by (cases words) simp_all
      with eq have "f words tsize overlap ((start + tsize) - overlap)
            (chunks @ [join_sp (py_slice words start (start + tsize))]) = Some r" by simp
      from IH[OF this] a show False by simp
    qed
  qed
  with assms show False by simp
qed

lemma windows_words:
  "ov < sz \<Longrightarrow> w \<in> set (windows sz ov r) \<Longrightarrow> w \<noteq> [] \<and> set w \<subseteq> set r"
proof (induction sz ov r rule: windows.induct)
  case (1 sz ov rest)
  show ?case
  proof (cases "rest = []")
    case True
    with "1.prems" show ?thesis by (simp add: windows_Nil)
  next
    case False
    with "1.prems" have "w = take sz rest \<or> w \<in> set (windows sz ov (drop (sz - ov) rest))"
      by (simp add: windows_Cons)
    then show ?thesis
    proof
      assume "w = take sz rest"
      with False "1.prems" show ?thesis by (auto dest: in_set_takeD)
    next
      assume a: "w \<in> set (windows sz ov (drop (sz - ov) rest))"
      have "w \<noteq> [] \<and> set w \<subseteq> set (drop (sz - ov) rest)"
        by (rule "1.IH") (use False "1.prems" a in simp_all)
      then show ?thesis by (auto dest: in_set_dropD)
    qed
  qed
qed

lemma join_sp_nonempty: "ws \<noteq> [] \<Longrightarrow> \<forall>w\<in>set ws. w \<noteq> [] \<Longrightarrow> join_sp ws \<noteq> []"
  by (induction ws rule: join_sp.induct) simp_all

lemma py_split_words: "\<forall>w\<in>set (py_split text). is_word w"
  unfolding py_split_def by (rule split_acc_words) simp

lemma non_overlapping_windows:
  assumes "ov < sz" and "\<forall>w\<in>set words. is_word w"
  shows "non_overlapping ov (map join_sp (windows sz ov words)) = words"
proof (cases "words = []")
  case True
  then show ?thesis by (simp add: windows_Nil non_overlapping_def)
next
  case False
  let ?rest = "windows sz ov (drop (sz - ov) words)"
  have w: "windows sz ov words = take sz words # ?rest"
    using False assms(1) by (rule windows_Cons)
  have first: "py_split (join_sp (take sz words)) = take sz words"
    by (rule split_join) (use assms(2) in \<open>auto dest: in_set_takeD\<close>)
  have "\<forall>c\<in>set ?rest. py_split (join_sp c) = c"
  proof
    fix c assume "c \<in> set ?rest"
    with assms(1) have "set c \<subseteq> set (drop (sz - ov) words)" by (simp add: windows_words)
    with assms(2) have "\<forall>w\<in>set c. is_word w" by (auto dest: in_set_dropD)
    then show "py_split (join_sp c) = c" by (rule split_join)
  qed
  then have m: "map (\<lambda>c. drop ov (py_split c)) (map join_sp ?rest) = map (drop ov) ?rest"
    by (simp add: map_idI)
  have "non_overlapping ov (map join_sp (windows sz ov words)) =
      py_split (join_sp (take sz words)) @
        concat (map (\<lambda>c. drop ov (py_split c)) (map join_sp ?rest))"
    by (simp add: w non_overlapping_def)
  also have "\<dots> = take sz words @ concat (map (drop ov) ?rest)"
    by (simp only: m first)
  also have "\<dots> = take sz words @ drop ov (drop (sz - ov) words)"
    using assms(1) by (simp only: windows_drop)
  also have "\<dots> = words" using assms(1) by simp
  finally show ?thesis .
qed

lemma auto_chunk_effective:
  assumes "adjust (int (length (py_split text))) tsize overlap = (int sz, int ov)"
    and "ov < sz"
  shows "auto_chunk text tsize overlap = Some (map join_sp (windows sz ov (py_split text)))"
  using chunk_loop_windows[OF assms(2), of "py_split text" 0 "[]"]
  by (simp add: auto_chunk_def Let_def assms(1))

lemma adjust_positive_step:
  assumes "0 \<le> overlap" and "overlap < tsize" and "n \<le> 5000 \<or> overlap < 2000"
  shows "0 \<le> snd (adjust n tsize overlap) \<and> snd (adjust n tsize overlap) < fst (adjust n tsize overlap)"
  using assms by (auto simp: adjust_def Let_def)

lemma adjust_short:
  "n < tsize \<Longrightarrow> 0 \<le> snd (adjust n tsize overlap) \<and> snd (adjust n tsize overlap) < fst (adjust n tsize overlap)"
  by (auto simp: adjust_def Let_def)

lemma auto_chunk_step_le:
  assumes "adjust (int (length (py_split text))) tsize overlap = (tsize', overlap')"
    and "tsize' \<le> overlap'"
  shows "auto_chunk text tsize overlap = (if py_split text = [] then Some [] else None)"
proof (cases "py_split text = []")
  case True
  then show ?thesis
    by (simp add: auto_chunk_def Let_def assms(1) chunk_loop.simps[of "[]"])
next
  case False
  then have "chunk_loop (py_split text) tsize' overlap' 0 [] = None"
    using assms(2) by (rule chunk_loop_diverges) simp
  with False show ?thesis by (simp add: auto_chunk_def Let_def assms(1))
qed

lemma py_split_abcd: "py_split ''a b c d'' = [''a'', ''b'', ''c'', ''d'']"
  by (simp add: py_split_def is_space_def)

lemma py_split_abc: "py_split ''a b c'' = [''a'', ''b'', ''c'']"
  by (simp add: py_split_def is_space_def)



section \<open>Claims on the chunker\<close>

text \<open>
  C4 (as amended). For every text and all parameters with \<open>0 \<le> overlap < size\<close>, and
  \<open>overlap < 2000\<close> when the text has more than 5000 words, \<open>auto_chunk\<close> returns,
  and the words of the first chunk followed by the words of every later chunk after its
  first \<open>overlap'\<close> words are the words of the text in order, where \<open>overlap'\<close> is the
  overlap after the adaptive adjustment.
\<close>

theorem auto_chunk_terminates_and_reconstructs:
  assumes "0 \<le> overlap" and "overlap < tsize"
    and "int (length (py_split text)) \<le> 5000 \<or> overlap < 2000"
  shows "\<exists>chunks. auto_chunk text tsize overlap = Some chunks \<and>
    non_overlapping (nat (snd (adjust (int (length (py_split text))) tsize overlap))) chunks =
      py_split text"
proof -
  let ?a = "adjust (int (length (py_split text))) tsize overlap"
  from assms have b: "0 \<le> snd ?a \<and> snd ?a < fst ?a" by (rule adjust_positive_step)
  then have eq: "?a = (int (nat (fst ?a)), int (nat (snd ?a)))" by simp
  from b have lt: "nat (snd ?a) < nat (fst ?a)" by simp
  have "auto_chunk text tsize overlap =
      Some (map join_sp (windows (nat (fst ?a)) (nat (snd ?a)) (py_split text)))"
    using eq lt by (rule auto_chunk_effective)
  moreover have "non_overlapping (nat (snd ?a))
      (map join_sp (windows (nat (fst ?a)) (nat (snd ?a)) (py_split text))) = py_split text"
    using lt py_split_words by (rule non_overlapping_windows)
  ultimately show ?thesis by simp
qed

theorem auto_chunk_terminates_and_reconstructs_witness:
  "(0::int) \<le> 1 \<and> (1::int) < 2 \<and>
   (\<exists>chunks. auto_chunk ''a b c d'' 2 1 = Some chunks \<and>
      non_overlapping (nat (snd (adjust (int (length (py_split ''a b c d''))) 2 1))) chunks =
        py_split ''a b c d'')"
  using auto_chunk_terminates_and_reconstructs [of 1 2 "''a b c d''"] by simp

text \<open>
  The claim as stated fails: with a negative overlap the window skips words (the word
  \<open>c\<close> is in no chunk), and with \<open>size = 3000\<close>, \<open>overlap = 2500\<close> on a text of 5001
  words the size is capped at 2000, the start index never grows and the loop does not
  return.
\<close>

theorem auto_chunk_reconstruction_counterexample:
  "auto_chunk ''a b c d'' 2 (- 1) = Some [''a b'', ''d''] \<and>
   ''c'' \<notin> set (concat (map py_split [''a b'', ''d''])) \<and>
   auto_chunk (join_sp (replicate 5001 ''w'')) 3000 2500 = None"
proof -
  have 1: "auto_chunk ''a b c d'' 2 (- 1) = Some [''a b'', ''d'']"
    by (simp add: auto_chunk_def py_split_abcd adjust_def chunk_loop.simps py_slice_def
        clamp_index_def)
  have 2: "''c'' \<notin> set (concat (map py_split [''a b'', ''d'']))"
    by (simp add: py_split_def is_space_def)
  have w: "py_split (join_sp (replicate 5001 ''w'')) = replicate 5001 ''w''"
    by (rule split_join) (simp add: is_word_def is_space_def)
  have a: "adjust (int (length (py_split (join_sp (replicate 5001 ''w''))))) 3000 2500 =
      (2000, 2500)"
    by (simp add: w adjust_def)
  have "auto_chunk (join_sp (replicate 5001 ''w'')) 3000 2500 =
      (if py_split (join_sp (replicate 5001 ''w'')) = [] then Some [] else None)"
    using a by (rule auto_chunk_step_le) simp
  then have 3: "auto_chunk (join_sp (replicate 5001 ''w'')) 3000 2500 = None"
    by (simp add: w)
  from 1 2 3 show ?thesis by simp
qed

text \<open>
  C5 (as amended). \<open>auto_chunk\<close> raises no configuration error. When the overlap is not
  below the target size after the adaptive adjustment, it returns the empty list for a
  text without words and does not return for any other text.
\<close>

theorem auto_chunk_nonpositive_step:
  assumes "adjust (int (length (py_split text))) tsize overlap = (tsize', overlap')"
    and "tsize' \<le> overlap'"
  shows "auto_chunk text tsize overlap = (if py_split text = [] then Some [] else None)"
  using assms by (rule auto_chunk_step_le)

theorem auto_chunk_nonpositive_step_witness:
  "adjust (int (length (py_split ''a b c''))) 2 2 = (2, 2) \<and> (2::int) \<le> 2 \<and>
   auto_chunk ''a b c'' 2 2 = None"
proof -
  have a: "adjust (int (length (py_split ''a b c''))) 2 2 = (2, 2)"
    by (simp add: py_split_abc adjust_def)
  have "auto_chunk ''a b c'' 2 2 = (if py_split ''a b c'' = [] then Some [] else None)"
    using a by (rule auto_chunk_nonpositive_step) simp
  with a show ?thesis by (simp add: py_split_abc)
qed

text \<open>
  The claim as stated fails: with \<open>overlap = size = 0\<close> the empty text is chunked
  into the empty list, a normal return, and with \<open>overlap = size = 2\<close> the text
  \<open>a b c\<close> makes the loop run forever; in neither case is an error reported.
\<close>

theorem auto_chunk_fail_fast_counterexample:
  "adjust (int (length (py_split ''''))) 0 0 = (0, 0) \<and> auto_chunk '''' 0 0 = Some [] \<and>
   adjust (int (length (py_split ''a b c''))) 2 2 = (2, 2) \<and> auto_chunk ''a b c'' 2 2 = None"
proof -
  have 1: "adjust (int (length (py_split ''''))) 0 0 = (0, 0)"
    by (simp add: py_split_def adjust_def)
  have 2: "auto_chunk '''' 0 0 = Some []"
    by (simp add: auto_chunk_def py_split_def adjust_def chunk_loop.simps)
  have 3: "adjust (int (length (py_split ''a b c''))) 2 2 = (2, 2)"
    by (simp add: py_split_abc adjust_def)
  have "auto_chunk ''a b c'' 2 2 = (if py_split ''a b c'' = [] then Some [] else None)"
    using 3 by (rule auto_chunk_step_le) simp
  then have 4: "auto_chunk ''a b c'' 2 2 = None" by (simp add: py_split_abc)
  from 1 2 3 4 show ?thesis by simp
qed

text \<open>
  C8 (as amended). For every document with at least one word and fewer words than the
  target size, \<open>auto_chunk\<close> returns at least one chunk, and every chunk it returns is
  a non-empty string.
\<close>

theorem auto_chunk_short_document:
  assumes "py_split text \<noteq> []" and "int (length (py_split text)) < tsize"
  shows "\<exists>chunks. auto_chunk text tsize overlap = Some chunks \<and> chunks \<noteq> [] \<and>
    (\<forall>c\<in>set chunks. c \<noteq> [])"
proof -
  let ?a = "adjust (int (length (py_split text))) tsize overlap"
  let ?ws = "windows (nat (fst ?a)) (nat (snd ?a)) (py_split text)"
  from assms(2) have b: "0 \<le> snd ?a \<and> snd ?a < fst ?a" by (rule adjust_short)
  then have eq: "?a = (int (nat (fst ?a)), int (nat (snd ?a)))" by simp
  from b have lt: "nat (snd ?a) < nat (fst ?a)" by simp
  have r: "auto_chunk text tsize overlap = Some (map join_sp ?ws)"
    using eq lt by (rule auto_chunk_effective)
  have ne: "?ws \<noteq> []" using assms(1) lt by (simp add: windows_Cons)
  have "\<forall>c\<in>set (map join_sp ?ws). c \<noteq> []"
  proof
    fix c assume "c \<in> set (map join_sp ?ws)"
    then obtain w where w: "w \<in> set ?ws" and c: "c = join_sp w" by auto
    from lt w have "w \<noteq> [] \<and> set w \<subseteq> set (py_split text)" by (rule windows_words)
    moreover have "\<forall>x\<in>set (py_split text). x \<noteq> []"
      using py_split_words by (simp add: is_word_def)
    ultimately have "w \<noteq> []" and "\<forall>x\<in>set w. x \<noteq> []" by auto
    then show "c \<noteq> []" unfolding c by (rule join_sp_nonempty)
  qed
  with r ne show ?thesis by simp
qed

theorem auto_chunk_short_document_witness:
  "py_split ''a b c d'' \<noteq> [] \<and> int (length (py_split ''a b c d'')) < 800 \<and>
   (\<exists>chunks. auto_chunk ''a b c d'' 800 120 = Some chunks \<and> chunks \<noteq> [] \<and>
      (\<forall>c\<in>set chunks. c \<noteq> []))"
  using auto_chunk_short_document [of "''a b c d''" 800 120] by (simp add: py_split_abcd)

text \<open>
  The claim as stated fails for a document without words: it has fewer words than any
  positive target size, and \<open>auto_chunk\<close> returns no chunk at all.
\<close>

theorem auto_chunk_empty_document_counterexample:
  "int (length (py_split '''')) < 800 \<and> auto_chunk '''' 800 120 = Some []"
  by (simp add: auto_chunk_def py_split_def adjust_def chunk_loop.simps)

section \<open>Claims on the embedder\<close>

text \<open>
  C10. \<open>Embedder.embed\<close> accepts a single string as well as a sequence: for every
  string \<open>s\<close>, \<open>embed(s)\<close> is \<open>embed([s])\<close>, whatever the service answers, and when
  the service answers \<open>s\<close> with a success status and an \<open>embedding\<close> member \<open>v\<close>
  the result is the one-element list \<open>[v]\<close>.
\<close>

theorem embed_single_string:
  "embed post self (Str s) = embed post self (Seq [s]) \<and>
   (post (base_url self @ ''/api/embeddings'') (model self) s = Response status_code body \<and>
    \<not> (400 \<le> status_code \<and> status_code < 600) \<and> map_of body ''embedding'' = Some v
      \<longrightarrow> embed post self (Str s) = Inr [v])"
  by (simp add: embed_def embed_request_def)

theorem embed_single_string_witness:
  "embed (\<lambda>url m prompt. Response 200 [(''embedding'', [1, 0])]) default_Embedder (Str ''alpha'') =
     embed (\<lambda>url m prompt. Response 200 [(''embedding'', [1, 0])]) default_Embedder (Seq [''alpha'']) \<and>
   embed (\<lambda>url m prompt. Response 200 [(''embedding'', [1, 0])]) default_Embedder (Str ''alpha'') =
     Inr [[1, 0]]"
  using embed_single_string [of "\<lambda>url m prompt. Response 200 [(''embedding'', [1, 0])]"
      default_Embedder "''alpha''" 200 "[(''embedding'', [1, 0])]" "[1, 0]"]
  by auto

section \<open>Lemmas on the encoding of the hashed string\<close>





section \<open>Claims on content identity\<close>




section \<open>Lemmas on the store\<close>


lemma execute_statements_Inr:
  "execute_statements fault k tbl rows = Inr tbl' \<Longrightarrow>
   tbl' = foldl insert_on_conflict_do_nothing tbl rows"
  by (induction rows arbitrary: k tbl) (simp_all split: if_splits)

lemma execute_statements_fault:
  "k \<le> j \<Longrightarrow> j < k + length rows \<Longrightarrow> isl (execute_statements (Some j) k tbl rows)"
proof (induction rows arbitrary: k tbl)
  case Nil
  then show ?case by simp
next
  case (Cons r rs)
  show ?case
  proof (cases "j = k")
    case True
    then show ?thesis by simp
  next
    case False
    with Cons.prems have "Suc k \<le> j" and "j < Suc k + length rs" by simp_all
    then have "isl (execute_statements (Some j) (Suc k) (insert_on_conflict_do_nothing tbl r) rs)"
      by (rule Cons.IH)
    with False show ?thesis by simp
  qed
qed

lemma execute_statements_before_fault:
  "k + length rows \<le> j \<Longrightarrow>
   execute_statements (Some j) k tbl rows = Inr (foldl insert_on_conflict_do_nothing tbl rows)"
  by (induction rows arbitrary: k tbl) simp_all

lemma concat_paginate: "0 < page_size \<Longrightarrow> concat (paginate seq page_size) = seq"
proof (induction seq page_size rule: paginate.induct)
  case (1 seq page_size)
  show ?case
  proof (cases "seq = []")
    case True
    then show ?thesis by (simp add: paginate.simps[of "[]"])
  next
    case False
    with 1 have "concat (paginate (drop page_size seq) page_size) = drop page_size seq" by simp
    with False "1.prems" show ?thesis by (simp add: paginate.simps[of seq])
  qed
qed

lemma execute_page_committed: "committed (snd (execute_page fault k db page)) = committed db"
  by (simp add: execute_page_def split: sum.splits)

lemma execute_page_Inr:
  assumes "execute_page fault k db page = (Inr u, db')"
  shows "status db' = InTransaction (foldl insert_on_conflict_do_nothing (snapshot db) page) \<and>
    committed db' = committed db"
  using assms
  by (auto simp: execute_page_def split: if_splits sum.splits dest: execute_statements_Inr)

lemma execute_page_Inl:
  assumes "execute_page fault k db page = (Inl e, db')"
  shows "status db' = InFailedTransaction \<and> committed db' = committed db"
  using assms by (auto simp: execute_page_def split: if_splits sum.splits)

lemma execute_pages_Inr:
  "execute_pages fault k db pages = (Inr u, db') \<Longrightarrow>
   committed db' = committed db \<and>
   snapshot db' = foldl insert_on_conflict_do_nothing (snapshot db) (concat pages) \<and>
   (pages \<noteq> [] \<longrightarrow> (\<exists>tbl. status db' = InTransaction tbl)) \<and> (pages = [] \<longrightarrow> db' = db)"
proof (induction pages arbitrary: k db)
  case Nil
  then show ?case by simp
next
  case (Cons page pages)
  from Cons.prems obtain v db1 where p: "execute_page fault k db page = (Inr v, db1)"
    and r: "execute_pages fault (k + length page) db1 pages = (Inr u, db')"
    by (auto split: prod.splits sum.splits)
  from p have s1: "status db1 = InTransaction (foldl insert_on_conflict_do_nothing (snapshot db) page)"
    and c1: "committed db1 = committed db"
    by (simp_all add: execute_page_Inr)
  from s1 have sn: "snapshot db1 = foldl insert_on_conflict_do_nothing (snapshot db) page"
    by (simp add: snapshot_def)
  from Cons.IH[OF r] have
    a: "committed db' = committed db1"
    and b: "snapshot db' = foldl insert_on_conflict_do_nothing (snapshot db1) (concat pages)"
    and c: "pages \<noteq> [] \<longrightarrow> (\<exists>tbl. status db' = InTransaction tbl)"
    and d: "pages = [] \<longrightarrow> db' = db1"
    by simp_all
  from c d s1 have "\<exists>tbl. status db' = InTransaction tbl" by (cases "pages = []") auto
  with a b c1 sn show ?case by simp
qed

lemma execute_pages_Inl:
  "execute_pages fault k db pages = (Inl e, db') \<Longrightarrow>
   committed db' = committed db \<and> status db' = InFailedTransaction"
proof (induction pages arbitrary: k db)
  case Nil
  then show ?case by simp
next
  case (Cons page pages)
  show ?case
  proof (cases "execute_page fault k db page")
    case (Pair res db1)
    show ?thesis
    proof (cases res)
      case (Inl e1)
      with Pair Cons.prems have "db' = db1" by simp
      with Pair Inl show ?thesis by (simp add: execute_page_Inl)
    next
      case (Inr v)
      with Pair Cons.prems have "execute_pages fault (k + length page) db1 pages = (Inl e, db')"
        by simp
      from Cons.IH[OF this] Pair Inr show ?thesis by (simp add: execute_page_Inr)
    qed
  qed
qed

lemma foldl_insert_ids:
  "row_id ` set (foldl insert_on_conflict_do_nothing tbl rows) = row_id ` set tbl \<union> row_id ` set rows"
  by (induction rows arbitrary: tbl) (auto simp: insert_on_conflict_do_nothing_def)






lemma execute_pages_fault:
  "k \<le> j \<Longrightarrow> j < k + length (concat pages) \<Longrightarrow> isl (fst (execute_pages (Some j) k db pages))"
proof (induction pages arbitrary: k db)
  case Nil
  then show ?case by simp
next
  case (Cons page pages)
  show ?case
  proof (cases "status db = InFailedTransaction")
    case True
    then show ?thesis by (simp add: execute_page_def)
  next
    case False
    show ?thesis
    proof (cases "j < k + length page")
      case True
      with Cons.prems(1) have "isl (execute_statements (Some j) k (snapshot db) page)"
        by (rule execute_statements_fault)
      with False show ?thesis by (auto simp: execute_page_def split: sum.splits)
    next
      case b: False
      then have e: "execute_statements (Some j) k (snapshot db) page =
          Inr (foldl insert_on_conflict_do_nothing (snapshot db) page)"
        by (simp add: execute_statements_before_fault)
      from b Cons.prems have "k + length page \<le> j" and "j < k + length page + length (concat pages)"
        by simp_all
      then have "isl (fst (execute_pages (Some j) (k + length page)
          (db\<lparr>status := InTransaction (foldl insert_on_conflict_do_nothing (snapshot db) page)\<rparr>) pages))"
        by (rule Cons.IH)
      with False e show ?thesis by (simp add: execute_page_def)
    qed
  qed
qed

lemma insert_chunks_Inr:
  assumes "insert_chunks fault db rows = (Inr u, db')"
  shows "committed db' = foldl insert_on_conflict_do_nothing (snapshot db) rows \<and> status db' = Idle"
proof -
  from assms obtain v db1 where b: "execute_pages fault 0 db (paginate rows 100) = (Inr v, db1)"
    and c: "commit fault (length rows) db1 = (Inr u, db')"
    by (auto simp: insert_chunks_def execute_batch_def split: prod.splits sum.splits)
  have cp: "concat (paginate rows 100) = rows" by (simp add: concat_paginate)
  from execute_pages_Inr[OF b] cp have
    1: "committed db1 = committed db"
    and 2: "snapshot db1 = foldl insert_on_conflict_do_nothing (snapshot db) rows"
    by simp_all
  from c 2 show ?thesis
    by (auto simp: commit_def snapshot_def split: if_splits transaction.splits)
qed

lemma insert_chunks_Inl:
  assumes "insert_chunks fault db rows = (Inl e, db')"
  shows "committed db' = committed db"
proof (cases "execute_pages fault 0 db (paginate rows 100)")
  case (Pair res db1)
  show ?thesis
  proof (cases res)
    case (Inl e1)
    with Pair assms have "db' = db1" by (simp add: insert_chunks_def execute_batch_def)
    with Pair Inl show ?thesis by (simp add: execute_pages_Inl)
  next
    case (Inr v)
    with Pair assms have c: "commit fault (length rows) db1 = (Inl e, db')"
      by (simp add: insert_chunks_def execute_batch_def)
    from Pair Inr have "committed db1 = committed db" by (simp add: execute_pages_Inr)
    with c show ?thesis by (auto simp: commit_def split: if_splits transaction.splits)
  qed
qed


lemma insert_chunks_fault:
  assumes "j \<le> length rows"
  shows "isl (fst (insert_chunks (Some j) db rows))"
proof (cases "j < length rows")
  case True
  then have "j < 0 + length (concat (paginate rows 100))" by (simp add: concat_paginate)
  with le0 have "isl (fst (execute_pages (Some j) 0 db (paginate rows 100)))"
    by (rule execute_pages_fault)
  then show ?thesis
    by (auto simp: insert_chunks_def execute_batch_def split: prod.splits sum.splits)
next
  case False
  with assms have "j = length rows" by simp
  then show ?thesis
    by (auto simp: insert_chunks_def execute_batch_def commit_def split: prod.splits sum.splits)
qed




section \<open>Lemmas on the search\<close>

lemma similarity_search_raises:
  "similarity_search db query_vector collection limit =
     Inl (TypeError ''not all arguments converted during string formatting'')"
  by (simp add: similarity_search_def bind_params_def)

lemma select_nearest_Inr:
  assumes "select_nearest op tbl q [PStr collection, PInt limit] = Inr results"
  shows "length results \<le> nat limit \<and> sorted (map (\<lambda>(t, m, d). d) results) \<and>
    set results \<subseteq> (\<lambda>r. (row_text r, row_vmetadata r, distance op (row_vector r) q)) `
      {r \<in> set tbl. row_collection_name r = collection}"
proof -
  let ?c = "filter (\<lambda>r. row_collection_name r = collection) tbl"
  let ?k = "\<lambda>r. distance op (row_vector r) q"
  let ?out = "\<lambda>r. (row_text r, row_vmetadata r, ?k r)"
  from assms have r: "results = take (nat limit) (map ?out (sort_key ?k ?c))"
    by (simp add: select_nearest_def Let_def split: if_splits)
  have 1: "length results \<le> nat limit" by (simp add: r)
  have "map (\<lambda>(t, m, d). d) (map ?out (sort_key ?k ?c)) = map ?k (sort_key ?k ?c)" by simp
  then have "sorted (map (\<lambda>(t, m, d). d) (map ?out (sort_key ?k ?c)))" by (simp only: sorted_sort_key)
  then have "sorted (take (nat limit) (map (\<lambda>(t, m, d). d) (map ?out (sort_key ?k ?c))))"
    by (rule sorted_wrt_take)
  then have 2: "sorted (map (\<lambda>(t, m, d). d) results)"
    unfolding r by (simp only: take_map)
  have "set results \<subseteq> set (map ?out (sort_key ?k ?c))" unfolding r by (rule set_take_subset)
  then have 3: "set results \<subseteq> ?out ` {r \<in> set tbl. row_collection_name r = collection}"
    by auto
  from 1 2 3 show ?thesis by simp
qed

lemma search_documents_Inr:
  assumes "search_documents post tbl query collection limit = Inr results"
  shows "\<exists>q. get_embedding post query = Inr q \<and> length results \<le> nat limit \<and>
    sorted (map (\<lambda>(t, m, d). d) results) \<and>
    set results \<subseteq> (\<lambda>r. (row_text r, row_vmetadata r, distance L2_distance (row_vector r) q)) `
      {r \<in> set tbl. row_collection_name r = collection}"
proof -
  from assms obtain q where q: "get_embedding post query = Inr q"
    and s: "select_nearest L2_distance tbl q [PStr collection, PInt limit] = Inr results"
    by (auto simp: search_documents_def bind_params_def search_documents_operator_def
        split: sum.splits)
  from select_nearest_Inr[OF s] q show ?thesis by blast
qed

lemma sqrt_100: "sqrt 100 = 10"
  using real_sqrt_abs[of 10] by simp

lemma sqrt_25: "sqrt 25 = 5"
  using real_sqrt_abs[of 5] by simp

lemma sqrt_81: "sqrt 81 = 9"
  using real_sqrt_abs[of 9] by simp

lemma sqrt_20_less_9: "sqrt 20 < 9"
  using real_sqrt_less_iff[of 20 81] by (simp add: sqrt_81)

lemma example_l2:
  "select_nearest L2_distance example_rows [1, 0] [PStr ''docs@v1'', PInt 1] =
     Inr [(''near'', [(''source'', ''a.txt''), (''product'', ''docs'')], sqrt 20)]"
  using sqrt_20_less_9
  by (simp add: select_nearest_def example_rows_def example_row_def sqrt_81)

lemma example_cosine:
  "select_nearest Cosine_distance example_rows [1, 0] [PStr ''docs@v1'', PInt 1] =
     Inr [(''far'', [(''source'', ''a.txt''), (''product'', ''docs'')], 0)]"
  by (simp add: select_nearest_def example_rows_def example_row_def dot_def sqrt_100 sqrt_25)

section \<open>Lemmas on the ingestion\<close>




lemma gather_all_results:
  "\<forall>f\<in>set futures. \<not> isl f \<Longrightarrow>
   gather futures rows = Inr (rows @ concat (map projr futures))"
proof (induction futures arbitrary: rows)
  case Nil
  show ?case by simp
next
  case (Cons f futures)
  then show ?case by (cases f) simp_all
qed






section \<open>Claims on the store\<close>



text \<open>
  C9. \<open>insert_chunks\<close> is atomic per batch. Whatever the state of the connection and
  wherever the server fails, either the call returns normally and the committed table is
  the old one with every row of the batch inserted (each id of the batch is then in the
  table), or it raises and the committed table is unchanged. A failure at any statement of
  the batch, or at the commit, is of the second kind.
\<close>

theorem insert_chunks_atomic:
  "((fst (insert_chunks fault db rows) = Inr () \<and>
     committed (snd (insert_chunks fault db rows)) =
       foldl insert_on_conflict_do_nothing (snapshot db) rows \<and>
     row_id ` set rows \<subseteq> row_id ` set (committed (snd (insert_chunks fault db rows)))) \<or>
    (isl (fst (insert_chunks fault db rows)) \<and>
     committed (snd (insert_chunks fault db rows)) = committed db)) \<and>
   (fault = Some j \<and> j \<le> length rows \<longrightarrow>
      isl (fst (insert_chunks fault db rows)) \<and>
      committed (snd (insert_chunks fault db rows)) = committed db)"
proof -
  obtain res db' where r: "insert_chunks fault db rows = (res, db')"
    by (cases "insert_chunks fault db rows")
  have first: "(res = Inr () \<and>
      committed db' = foldl insert_on_conflict_do_nothing (snapshot db) rows \<and>
      row_id ` set rows \<subseteq> row_id ` set (committed db')) \<or>
    (isl res \<and> committed db' = committed db)"
  proof (cases res)
    case (Inl e)
    with r have "committed db' = committed db" by (simp add: insert_chunks_Inl)
    with Inl show ?thesis by simp
  next
    case (Inr u)
    with r have "committed db' = foldl insert_on_conflict_do_nothing (snapshot db) rows"
      by (simp add: insert_chunks_Inr)
    with Inr show ?thesis by (simp add: foldl_insert_ids)
  qed
  have second: "isl res \<and> committed db' = committed db" if "fault = Some j" and "j \<le> length rows"
  proof -
    from that(2) have "isl (fst (insert_chunks (Some j) db rows))" by (rule insert_chunks_fault)
    with that(1) r have i: "isl res" by simp
    then obtain e where "res = Inl e" by (cases res) simp_all
    with r have "committed db' = committed db" by (simp add: insert_chunks_Inl)
    with i show ?thesis by simp
  qed
  show ?thesis unfolding r fst_conv snd_conv using first second by blast
qed

theorem insert_chunks_atomic_witness:
  "isl (fst (insert_chunks (Some 1) (DatabaseManager_init []) example_rows)) \<and>
   committed (snd (insert_chunks (Some 1) (DatabaseManager_init []) example_rows)) =
     committed (DatabaseManager_init [])"
  using insert_chunks_atomic
    [where fault = "Some 1" and j = 1 and db = "DatabaseManager_init []" and rows = example_rows]
  by (simp add: example_rows_def)

section \<open>Claims on the search\<close>

text \<open>
  C3. The claim is that \<open>search(v, c, k)\<close> returns at most \<open>k\<close> rows of the
  collection \<open>c\<close> in order of distance. \<open>similarity_search\<close> passes three
  parameters to a statement with two placeholders, so every call raises \<open>TypeError\<close>
  and returns nothing; \<open>search_documents\<close>, which binds the two parameters of the same
  statement, returns the rows as claimed (lemma \<open>search_documents_Inr\<close>).
\<close>

theorem similarity_search_type_error:
  "similarity_search (DatabaseManager_init example_rows) [1, 0] ''docs@v1'' 5 =
     Inl (TypeError ''not all arguments converted during string formatting'') \<and>
   search_documents example_service example_rows ''alpha'' ''docs@v1'' 5 =
     Inr [(''near'', [(''source'', ''a.txt''), (''product'', ''docs'')], sqrt 20),
          (''far'', [(''source'', ''a.txt''), (''product'', ''docs'')], 9)]"
proof -
  have "search_documents example_service example_rows ''alpha'' ''docs@v1'' 5 =
     Inr [(''near'', [(''source'', ''a.txt''), (''product'', ''docs'')], sqrt 20),
          (''far'', [(''source'', ''a.txt''), (''product'', ''docs'')], 9)]"
    using sqrt_20_less_9
    by (simp add: search_documents_def get_embedding_def embed_request_def example_service_def
        bind_params_def search_documents_operator_def select_nearest_def example_rows_def
        example_row_def sqrt_81)
  then show ?thesis by (simp add: similarity_search_raises)
qed

text \<open>
  C7. The claim is that the search ranks by the cosine metric the indexes are built with.
  Both indexes of \<open>initialize_schema\<close> have the operator class of the cosine distance,
  and \<open>check_db.py\<close> queries with the cosine operator, but \<open>similarity_search\<close> and
  \<open>search_documents\<close> order by the Euclidean distance and return it. For the query
  \<open>[1, 0]\<close> against the vectors \<open>[10, 0]\<close> and \<open>[3, 4]\<close> the two metrics give
  opposite rankings.
\<close>

theorem search_operator_is_not_index_operator:
  "map (\<lambda>i. opclass_operator (index_opclass i)) initialize_schema_indexes =
     [Cosine_distance, Cosine_distance] \<and>
   check_db_operator = Cosine_distance \<and>
   similarity_search_operator = L2_distance \<and> search_documents_operator = L2_distance \<and>
   L2_distance \<noteq> Cosine_distance \<and>
   select_nearest similarity_search_operator example_rows [1, 0] [PStr ''docs@v1'', PInt 1] =
     Inr [(''near'', [(''source'', ''a.txt''), (''product'', ''docs'')], sqrt 20)] \<and>
   select_nearest Cosine_distance example_rows [1, 0] [PStr ''docs@v1'', PInt 1] =
     Inr [(''far'', [(''source'', ''a.txt''), (''product'', ''docs'')], 0)]"
  by (simp add: initialize_schema_indexes_def check_db_operator_def
      similarity_search_operator_def search_documents_operator_def example_l2 example_cosine)

section \<open>Claims on the ingestion\<close>




end
